theory Spec2Isabelle
  imports Main "HOL-Library.Signed_Division"
begin

section \<open>CPF validation and formatting (utils/validators)\<close>

text \<open>
  JavaScript strings are modelled as \<^typ>\<open>string\<close>. The regular expression class
  \<^verbatim>\<open>\d\<close> is the ten ASCII digits, \<^verbatim>\<open>\D\<close> its complement, so
  \<^verbatim>\<open>s.replace(/\D/g, '')\<close> keeps exactly the digit characters of \<^verbatim>\<open>s\<close>, in order.
  Every character that is not one of these ten is a non-digit to the validator, whatever
  its code.
\<close>

definition isDigit :: "char \<Rightarrow> bool" where
  "isDigit c = (48 \<le> (of_char c :: nat) \<and> (of_char c :: nat) \<le> 57)"

definition digitVal :: "char \<Rightarrow> int" where
  "digitVal c = int (of_char c) - 48"

definition replaceNonDigits :: "string \<Rightarrow> string" where
  "replaceNonDigits s = filter isDigit s"

text \<open>
  \<^verbatim>\<open>s.charAt(i)\<close> is the one-character string at index \<^verbatim>\<open>i\<close>, and the empty string
  when \<^verbatim>\<open>i\<close> is out of range.
\<close>

definition charAt :: "string \<Rightarrow> nat \<Rightarrow> string" where
  "charAt s i = (if i < length s then [s ! i] else [])"

text \<open>
  JavaScript numbers: the validator only ever holds small integers or \<^verbatim>\<open>NaN\<close>, so a
  number is an \<^typ>\<open>int option\<close> with \<^term>\<open>None\<close> for \<^verbatim>\<open>NaN\<close>. \<^verbatim>\<open>parseInt\<close> is
  modelled on the strings \<^verbatim>\<open>charAt\<close> returns (at most one character): a digit parses to
  its value; the empty string and every other single character give \<^verbatim>\<open>NaN\<close>.
  Arithmetic propagates \<^verbatim>\<open>NaN\<close>; \<^verbatim>\<open>%\<close> truncates towards zero (\<^term>\<open>(smod)\<close>);
  every comparison with \<^verbatim>\<open>NaN\<close> but \<^verbatim>\<open>!==\<close> is false.
\<close>

type_synonym number = "int option"

definition parseInt :: "string \<Rightarrow> number" where
  "parseInt s = (case s of [c] \<Rightarrow> (if isDigit c then Some (digitVal c) else None) | _ \<Rightarrow> None)"

definition numAdd :: "number \<Rightarrow> number \<Rightarrow> number" where
  "numAdd a b = (case a of None \<Rightarrow> None | Some x \<Rightarrow> (case b of None \<Rightarrow> None | Some y \<Rightarrow> Some (x + y)))"

definition numMul :: "number \<Rightarrow> int \<Rightarrow> number" where
  "numMul a k = (case a of None \<Rightarrow> None | Some x \<Rightarrow> Some (x * k))"

definition numRem :: "number \<Rightarrow> int \<Rightarrow> number" where
  "numRem a k = (case a of None \<Rightarrow> None | Some x \<Rightarrow> Some (x smod k))"

definition numStrictEq :: "number \<Rightarrow> number \<Rightarrow> bool" where
  "numStrictEq a b = (case a of None \<Rightarrow> False | Some x \<Rightarrow> (case b of None \<Rightarrow> False | Some y \<Rightarrow> x = y))"

text \<open>
  The two loops of \<^verbatim>\<open>isCpfValid\<close>,
  \<^verbatim>\<open>for (let i = 0; i < n; i++) sum += parseInt(cleanCpf.charAt(i)) * (w - i)\<close>,
  with \<^verbatim>\<open>n = 9, w = 10\<close> and \<^verbatim>\<open>n = 10, w = 11\<close>; the source's variable
  \<^verbatim>\<open>sum\<close> is \<open>acc\<close> here (\<open>sum1\<close>, \<open>sum2\<close> in \<open>isCpfValid\<close>).
\<close>

function weightedSum :: "string \<Rightarrow> nat \<Rightarrow> int \<Rightarrow> nat \<Rightarrow> number \<Rightarrow> number" where
  "weightedSum cleanCpf n w i acc =
     (if i < n
      then weightedSum cleanCpf n w (Suc i)
             (numAdd acc (numMul (parseInt (charAt cleanCpf i)) (w - int i)))
      else acc)"
  by pat_completeness auto
termination
  by (relation "measure (\<lambda>(cleanCpf, n, w, i, acc). n - i)") auto

declare weightedSum.simps [simp del]

text \<open>\<^verbatim>\<open>remainder < 2 ? 0 : 11 - remainder\<close>\<close>

definition checkDigitOf :: "number \<Rightarrow> number" where
  "checkDigitOf remainder =
     (case remainder of None \<Rightarrow> None | Some r \<Rightarrow> if r < 2 then Some 0 else Some (11 - r))"

text \<open>
  \<^verbatim>\<open>/^(\d)\1+$/.test(s)\<close>: a digit followed by one or more copies of itself, and nothing
  else.
\<close>

definition allSameDigit :: "string \<Rightarrow> bool" where
  "allSameDigit s =
     (case s of [] \<Rightarrow> False | c # cs \<Rightarrow> isDigit c \<and> cs \<noteq> [] \<and> list_all (\<lambda>x. x = c) cs)"

definition isCpfValid :: "string \<Rightarrow> bool" where
  "isCpfValid cpf =
     (let cleanCpf = replaceNonDigits cpf in
      if length cleanCpf \<noteq> 11 then False
      else if allSameDigit cleanCpf then False
      else
        let sum1 = weightedSum cleanCpf 9 10 0 (Some 0);
            remainder = numRem sum1 11;
            firstCheckDigit = checkDigitOf remainder
        in if \<not> numStrictEq (parseInt (charAt cleanCpf 9)) firstCheckDigit then False
           else
             let sum2 = weightedSum cleanCpf 10 11 0 (Some 0);
                 remainder2 = numRem sum2 11;
                 secondCheckDigit = checkDigitOf remainder2
             in numStrictEq (parseInt (charAt cleanCpf 10)) secondCheckDigit)"

text \<open>
  \<^verbatim>\<open>s.slice(a, b)\<close> and \<^verbatim>\<open>s.slice(a)\<close> for indices \<^verbatim>\<open>0 \<le> a \<le> b\<close>, the only way
  \<^verbatim>\<open>formatCpf\<close> calls them; indices beyond the end are clipped to the length.
\<close>

definition slice :: "string \<Rightarrow> nat \<Rightarrow> nat \<Rightarrow> string" where
  "slice s a b = take (b - a) (drop a s)"

definition sliceFrom :: "string \<Rightarrow> nat \<Rightarrow> string" where
  "sliceFrom s a = drop a s"

definition formatCpf :: "string \<Rightarrow> string" where
  "formatCpf cpf =
     (let cleanCpf = replaceNonDigits cpf in
      if length cleanCpf \<le> 3 then cleanCpf
      else if length cleanCpf \<le> 6 then
        slice cleanCpf 0 3 @ ''.'' @ sliceFrom cleanCpf 3
      else if length cleanCpf \<le> 9 then
        slice cleanCpf 0 3 @ ''.'' @ slice cleanCpf 3 6 @ ''.'' @ sliceFrom cleanCpf 6
      else
        slice cleanCpf 0 3 @ ''.'' @ slice cleanCpf 3 6 @ ''.'' @ slice cleanCpf 6 9
          @ ''-'' @ slice cleanCpf 9 11)"

text \<open>
  The validation rule in the words of the specification: exactly eleven digits remain
  after the mask characters are removed, they are not all identical, and the tenth and
  eleventh digits are the check digits of the weighted sums modulo 11.
\<close>

definition digitsOf :: "string \<Rightarrow> int list" where
  "digitsOf s = map digitVal (filter isDigit s)"

definition checkDigitSpec :: "int \<Rightarrow> int" where
  "checkDigitSpec t = (if t mod 11 < 2 then 0 else 11 - t mod 11)"

definition cpfValidSpec :: "string \<Rightarrow> bool" where
  "cpfValidSpec s =
     (let d = digitsOf s in
      length d = 11
      \<and> d \<noteq> replicate 11 (d ! 0)
      \<and> d ! 9 = checkDigitSpec (\<Sum>i = 0..<9. d ! i * (10 - int i))
      \<and> d ! 10 = checkDigitSpec (\<Sum>i = 0..<10. d ! i * (11 - int i)))"

definition stripMask :: "string \<Rightarrow> string" where
  "stripMask s = filter (\<lambda>c. c \<noteq> CHR ''.'' \<and> c \<noteq> CHR ''-'') s"


section \<open>Authentication types (types.ts)\<close>

text \<open>
  The field \<^verbatim>\<open>id\<close> of \<^verbatim>\<open>User\<close> is \<open>id'\<close> here; the fields of \<^verbatim>\<open>LoginCredentials\<close> and
  \<^verbatim>\<open>LoginResponse\<close> carry a prefix, since \<^verbatim>\<open>cpf\<close>, \<^verbatim>\<open>user\<close> and \<^verbatim>\<open>token\<close> are also
  fields of \<^verbatim>\<open>User\<close> and \<^verbatim>\<open>AuthState\<close>. A field of type \<^verbatim>\<open>T | null\<close> is a
  \<^typ>\<open>'a option\<close>; the fields of \<^verbatim>\<open>LoginResponse\<close> cannot be null.
\<close>

datatype UserType = TRAINER | STUDENT | ADMIN

record User =
  id' :: string
  name :: string
  cpf :: string
  email :: string
  profileImage :: "string option"
  userType :: UserType

record LoginCredentials =
  cred_cpf :: string
  cred_password :: string

record LoginResponse =
  resp_user :: User
  resp_token :: string

record AuthState =
  user :: "User option"
  token :: "string option"
  isLoading :: bool
  error :: "string option"
  isAuthenticated :: bool

datatype AuthAction =
    LOGIN_REQUEST
  | LOGIN_SUCCESS LoginResponse
  | LOGIN_FAILURE string
  | LOGOUT

section \<open>The auth reducer (hooks/useAuth)\<close>

definition initialState :: AuthState where
  "initialState =
     \<lparr>user = None, token = None, isLoading = True, error = None, isAuthenticated = False\<rparr>"

fun authReducer :: "AuthState \<Rightarrow> AuthAction \<Rightarrow> AuthState" where
  "authReducer state LOGIN_REQUEST = state\<lparr>isLoading := True, error := None\<rparr>"
| "authReducer state (LOGIN_SUCCESS payload) =
     state\<lparr>isLoading := False, isAuthenticated := True,
           user := Some (resp_user payload), token := Some (resp_token payload),
           error := None\<rparr>"
| "authReducer state (LOGIN_FAILURE payload) =
     state\<lparr>isLoading := False, isAuthenticated := False, error := Some payload\<rparr>"
| "authReducer state LOGOUT = initialState\<lparr>isLoading := False\<rparr>"

text \<open>The state after dispatching a list of actions, oldest first, from the initial state.\<close>

definition dispatchAll :: "AuthAction list \<Rightarrow> AuthState" where
  "dispatchAll actions = foldl authReducer initialState actions"

section \<open>Session storage (services/auth-service)\<close>

text \<open>
  A thrown JavaScript value: an \<^verbatim>\<open>Error\<close> instance with its message, or anything else.
\<close>

datatype thrown = ErrorObject string | OtherValue

text \<open>
  \<^verbatim>\<open>AsyncStorage\<close> is a library outside the repository. It is modelled as a map from
  keys to string values. Any call may fail: \<open>faults\<close> lists, for the calls to come,
  whether the call succeeds (\<^term>\<open>None\<close>) or throws; calls beyond the end of the list
  succeed. Nothing in the service undoes a call that has failed, and the store need not
  have transactions, so a \<^verbatim>\<open>multiSet\<close> or \<^verbatim>\<open>multiRemove\<close> that throws may already have
  written or removed some of its keys: a fault \<open>Throws e n\<close> throws the value \<open>e\<close> after
  the first \<open>n\<close> keys of the call have been dealt with (none when \<open>n = 0\<close>, all of them
  when \<open>n\<close> is the number of keys or more).
\<close>

datatype fault = Throws thrown nat

record Device =
  items :: "string \<rightharpoonup> string"
  faults :: "fault option list"

definition nextCall :: "Device \<Rightarrow> fault option \<times> Device" where
  "nextCall d = (case faults d of [] \<Rightarrow> (None, d) | f # fs \<Rightarrow> (f, d\<lparr>faults := fs\<rparr>))"

definition AsyncStorage_getItem :: "string \<Rightarrow> Device \<Rightarrow> (thrown + string option) \<times> Device" where
  "AsyncStorage_getItem key d =
     (case nextCall d of
        (Some (Throws e n), d') \<Rightarrow> (Inl e, d')
      | (None, d') \<Rightarrow> (Inr (items d' key), d'))"

definition AsyncStorage_multiSet ::
  "(string \<times> string) list \<Rightarrow> Device \<Rightarrow> (thrown + unit) \<times> Device" where
  "AsyncStorage_multiSet keyValuePairs d =
     (case nextCall d of
        (Some (Throws e n), d') \<Rightarrow>
          (Inl e,
           d'\<lparr>items := fold (\<lambda>(k, v) m. m(k \<mapsto> v)) (take n keyValuePairs) (items d')\<rparr>)
      | (None, d') \<Rightarrow>
          (Inr (), d'\<lparr>items := fold (\<lambda>(k, v) m. m(k \<mapsto> v)) keyValuePairs (items d')\<rparr>))"

definition AsyncStorage_multiRemove :: "string list \<Rightarrow> Device \<Rightarrow> (thrown + unit) \<times> Device" where
  "AsyncStorage_multiRemove keys d =
     (case nextCall d of
        (Some (Throws e n), d') \<Rightarrow>
          (Inl e, d'\<lparr>items := fold (\<lambda>k m. m(k := None)) (take n keys) (items d')\<rparr>)
      | (None, d') \<Rightarrow> (Inr (), d'\<lparr>items := fold (\<lambda>k m. m(k := None)) keys (items d')\<rparr>))"

definition AUTH_TOKEN_KEY :: string where
  "AUTH_TOKEN_KEY = ''@PhysiPro:authToken''"

definition USER_DATA_KEY :: string where
  "USER_DATA_KEY = ''@PhysiPro:userData''"

text \<open>\<^verbatim>\<open>safeStorage\<close>: each wrapper catches what the storage call throws.\<close>

definition safeStorage_getItem :: "string \<Rightarrow> Device \<Rightarrow> string option \<times> Device" where
  "safeStorage_getItem key d =
     (case AsyncStorage_getItem key d of
        (Inr v, d') \<Rightarrow> (v, d')
      | (Inl e, d') \<Rightarrow> (None, d'))"

definition safeStorage_multiSet :: "(string \<times> string) list \<Rightarrow> Device \<Rightarrow> bool \<times> Device" where
  "safeStorage_multiSet keyValuePairs d =
     (case AsyncStorage_multiSet keyValuePairs d of
        (Inr _, d') \<Rightarrow> (True, d')
      | (Inl e, d') \<Rightarrow> (False, d'))"

definition safeStorage_multiRemove :: "string list \<Rightarrow> Device \<Rightarrow> bool \<times> Device" where
  "safeStorage_multiRemove keys d =
     (case AsyncStorage_multiRemove keys d of
        (Inr _, d') \<Rightarrow> (True, d')
      | (Inl e, d') \<Rightarrow> (False, d'))"

text \<open>
  \<^verbatim>\<open>JSON.stringify\<close> and \<^verbatim>\<open>JSON.parse\<close> are parameters of the functions that call
  them. The parser throws on malformed text and otherwise returns a user record or
  \<^term>\<open>None\<close>, which stands for \<^verbatim>\<open>null\<close> and every other value the caller's
  \<^verbatim>\<open>user && token\<close> test treats as no user.
\<close>

type_synonym stringify = "User \<Rightarrow> string"
type_synonym parse = "string \<Rightarrow> thrown + User option"

definition saveAuthData :: "stringify \<Rightarrow> LoginResponse \<Rightarrow> Device \<Rightarrow> bool \<times> Device" where
  "saveAuthData JSON_stringify data d =
     (let keyValuePairs =
            [(AUTH_TOKEN_KEY, resp_token data), (USER_DATA_KEY, JSON_stringify (resp_user data))]
      in safeStorage_multiSet keyValuePairs d)"

definition getSavedUser :: "parse \<Rightarrow> Device \<Rightarrow> User option \<times> Device" where
  "getSavedUser JSON_parse d =
     (case safeStorage_getItem USER_DATA_KEY d of
        (None, d') \<Rightarrow> (None, d')
      | (Some userData, d') \<Rightarrow>
          if userData = [] then (None, d')
          else (case JSON_parse userData of
                  Inr u \<Rightarrow> (u, d')
                | Inl e \<Rightarrow> (None, d')))"

definition getSavedToken :: "Device \<Rightarrow> string option \<times> Device" where
  "getSavedToken d = safeStorage_getItem AUTH_TOKEN_KEY d"

text \<open>\<^verbatim>\<open>!!token\<close>: a string is truthy when it is neither \<^verbatim>\<open>null\<close> nor empty.\<close>

definition truthy :: "string option \<Rightarrow> bool" where
  "truthy v = (case v of None \<Rightarrow> False | Some s \<Rightarrow> s \<noteq> [])"

definition isUserLoggedIn :: "Device \<Rightarrow> bool \<times> Device" where
  "isUserLoggedIn d = (case getSavedToken d of (savedToken, d') \<Rightarrow> (truthy savedToken, d'))"

definition clearAuthData :: "Device \<Rightarrow> bool \<times> Device" where
  "clearAuthData d = safeStorage_multiRemove [AUTH_TOKEN_KEY, USER_DATA_KEY] d"

definition AuthService_logout :: "Device \<Rightarrow> bool \<times> Device" where
  "AuthService_logout d = clearAuthData d"

text \<open>
  The mock \<^verbatim>\<open>login\<close> of the service (its one-second delay left out). The message of
  the error it throws is \<^verbatim>\<open>CPF ou senha inv\<close>, a-acute (code \<^verbatim>\<open>0xE1\<close>), \<^verbatim>\<open>lidos.\<close>
\<close>

definition mockResponse :: LoginResponse where
  "mockResponse =
     \<lparr>resp_user =
        \<lparr>id' = ''1'', name = ''Treinador'', cpf = ''123.456.789-10'',
         email = ''john@example.com'',
         profileImage = Some ''https://via.placeholder.com/150'',
         userType = TRAINER\<rparr>,
      resp_token = ''mock-jwt-token-would-be-here''\<rparr>"

definition invalidCredentialsMessage :: string where
  "invalidCredentialsMessage = ''CPF ou senha inv'' @ [CHR 0xE1] @ ''lidos.''"

definition AuthService_login ::
  "stringify \<Rightarrow> LoginCredentials \<Rightarrow> Device \<Rightarrow> (thrown + LoginResponse) \<times> Device" where
  "AuthService_login JSON_stringify credentials d =
     (if cred_cpf credentials = ''123.456.789-10'' \<and> cred_password credentials = ''password123''
      then (case saveAuthData JSON_stringify mockResponse d of
              (saved, d') \<Rightarrow> (Inr mockResponse, d'))
      else (Inl (ErrorObject invalidCredentialsMessage), d))"

section \<open>The auth hook (hooks/useAuth)\<close>

text \<open>
  What \<^verbatim>\<open>useAuth\<close> holds: the reducer's state and the \<^verbatim>\<open>isInitialized\<close> flag.
  \<^verbatim>\<open>dispatch\<close> applies the reducer to the held state.
\<close>

record Hook =
  auth :: AuthState
  isInitialized :: bool

definition dispatch :: "AuthAction \<Rightarrow> Hook \<Rightarrow> Hook" where
  "dispatch action h = h\<lparr>auth := authReducer (auth h) action\<rparr>"

definition setIsInitialized :: "bool \<Rightarrow> Hook \<Rightarrow> Hook" where
  "setIsInitialized b h = h\<lparr>isInitialized := b\<rparr>"

text \<open>
  \<^verbatim>\<open>checkAuthStatus\<close>, the effect run once when the hook mounts. \<^verbatim>\<open>Promise.all\<close> starts
  \<^verbatim>\<open>getSavedUser\<close> before \<^verbatim>\<open>getSavedToken\<close>. No service function can throw (each
  catches what the storage and the parser throw), so the \<^verbatim>\<open>catch\<close> branch of
  \<^verbatim>\<open>checkAuthStatus\<close> is never entered; its \<^verbatim>\<open>finally\<close> sets the flag on every path.
\<close>

definition checkAuthStatus :: "parse \<Rightarrow> Hook \<Rightarrow> Device \<Rightarrow> Hook \<times> Device" where
  "checkAuthStatus JSON_parse h d =
     (case isUserLoggedIn d of (isLoggedIn, d1) \<Rightarrow>
        if isLoggedIn then
          (case getSavedUser JSON_parse d1 of (savedUser, d2) \<Rightarrow>
           (case getSavedToken d2 of (savedToken, d3) \<Rightarrow>
              (case (savedUser, savedToken) of
                 (Some u, Some t) \<Rightarrow>
                   (if t \<noteq> []
                    then (setIsInitialized True
                            (dispatch (LOGIN_SUCCESS \<lparr>resp_user = u, resp_token = t\<rparr>) h), d3)
                    else (case clearAuthData d3 of (clearSuccess, d4) \<Rightarrow>
                            (setIsInitialized True (dispatch LOGOUT h), d4)))
               | _ \<Rightarrow>
                   (case clearAuthData d3 of (clearSuccess, d4) \<Rightarrow>
                      (setIsInitialized True (dispatch LOGOUT h), d4)))))
        else (setIsInitialized True (dispatch LOGOUT h), d1))"

text \<open>
  \<^verbatim>\<open>login\<close> of the hook: the result is what the caller's promise settles to,
  \<^term>\<open>Inl\<close> for a rejection with the value re-thrown.
\<close>

definition login ::
  "stringify \<Rightarrow> LoginCredentials \<Rightarrow> Hook \<Rightarrow> Device \<Rightarrow> (thrown + LoginResponse) \<times> Hook \<times> Device" where
  "login JSON_stringify credentials h d =
     (let h1 = dispatch LOGIN_REQUEST h in
      case AuthService_login JSON_stringify credentials d of
        (Inr response, d') \<Rightarrow> (Inr response, dispatch (LOGIN_SUCCESS response) h1, d')
      | (Inl e, d') \<Rightarrow>
          (Inl e,
           dispatch (LOGIN_FAILURE
              (case e of ErrorObject message \<Rightarrow> message | OtherValue \<Rightarrow> ''Failed to login'')) h1,
           d'))"

text \<open>
  \<^verbatim>\<open>logout\<close> of the hook, over any behaviour of the service call it awaits (a result or a
  thrown value), and then over \<^verbatim>\<open>AuthService.logout\<close> as the service defines it.
\<close>

definition logoutWith ::
  "(Device \<Rightarrow> (thrown + bool) \<times> Device) \<Rightarrow> Hook \<Rightarrow> Device \<Rightarrow> Hook \<times> Device" where
  "logoutWith service h d =
     (case service d of
        (Inr success, d') \<Rightarrow> (dispatch LOGOUT h, d')
      | (Inl e, d') \<Rightarrow> (dispatch LOGOUT h, d'))"

definition logout :: "Hook \<Rightarrow> Device \<Rightarrow> Hook \<times> Device" where
  "logout h d =
     logoutWith (\<lambda>d. case AuthService_logout d of (success, d') \<Rightarrow> (Inr success, d')) h d"

section \<open>The route guard (components/AuthGuard)\<close>

definition PUBLIC_ROUTES :: "string list" where
  "PUBLIC_ROUTES = [''login'', ''register'', ''forgot-password'']"

fun ROLE_ROUTES :: "UserType \<Rightarrow> string" where
  "ROLE_ROUTES ADMIN = ''admin''"
| "ROLE_ROUTES TRAINER = ''trainer''"
| "ROLE_ROUTES STUDENT = ''student''"

text \<open>\<^verbatim>\<open>Object.values(ROLE_ROUTES)\<close>, in the order the object literal lists its keys.\<close>

definition ROLE_ROUTES_values :: "string list" where
  "ROLE_ROUTES_values = map ROLE_ROUTES [ADMIN, TRAINER, STUDENT]"

text \<open>
  The effect of \<^verbatim>\<open>useProtectedRoute\<close>: the argument of \<^verbatim>\<open>router.replace\<close>, or
  \<^term>\<open>None\<close> when the effect navigates nowhere. \<open>pathname\<close> and \<open>segments\<close> are what
  the router's \<^verbatim>\<open>usePathname\<close> and \<^verbatim>\<open>useSegments\<close> return.
\<close>

definition useProtectedRoute :: "Hook \<Rightarrow> string \<Rightarrow> string list \<Rightarrow> string option" where
  "useProtectedRoute h pathname segments =
     (let currentRoute = drop 1 pathname;
          currentModule = (case segments of [] \<Rightarrow> [] | s # rest \<Rightarrow> s)
      in if \<not> isInitialized h then None
         else
           let inPublicRoute = currentRoute \<in> set PUBLIC_ROUTES;
               inProtectedRoute = \<not> inPublicRoute
           in if inProtectedRoute \<and> \<not> isAuthenticated (auth h) then Some ''/login''
              else
                (case user (auth h) of
                   Some u \<Rightarrow>
                     if inPublicRoute \<and> isAuthenticated (auth h)
                     then Some (''/'' @ ROLE_ROUTES (userType u))
                     else if isAuthenticated (auth h) \<and> currentModule \<noteq> []
                             \<and> currentModule \<noteq> ROLE_ROUTES (userType u)
                     then (if currentModule \<in> set ROLE_ROUTES_values
                           then Some (''/'' @ ROLE_ROUTES (userType u))
                           else None)
                     else None
                 | None \<Rightarrow> None))"

section \<open>The specification's statements\<close>

text \<open>
  The logged-out state: no user, no token, not authenticated, not loading, no error.
\<close>

definition loggedOut :: AuthState where
  "loggedOut =
     \<lparr>user = None, token = None, isLoading = False, error = None, isAuthenticated = False\<rparr>"

text \<open>
  The user record a fault-free read of the store yields: \<^term>\<open>None\<close> when the key is
  absent, its text is empty or does not parse to a user.
\<close>

definition storedUser :: "parse \<Rightarrow> (string \<rightharpoonup> string) \<Rightarrow> User option" where
  "storedUser JSON_parse m =
     (case m USER_DATA_KEY of
        None \<Rightarrow> None
      | Some userData \<Rightarrow>
          if userData = [] then None
          else (case JSON_parse userData of Inr u \<Rightarrow> u | Inl e \<Rightarrow> None))"

text \<open>
  A store holding exactly one component of a session: a token without a parsable user
  record, or a user record without a token.
\<close>

definition partialSession :: "parse \<Rightarrow> (string \<rightharpoonup> string) \<Rightarrow> bool" where
  "partialSession JSON_parse m =
     (if m AUTH_TOKEN_KEY = None then m USER_DATA_KEY \<noteq> None
      else storedUser JSON_parse m = None)"

definition bothKeysAbsent :: "(string \<rightharpoonup> string) \<Rightarrow> bool" where
  "bothKeysAbsent m = (m AUTH_TOKEN_KEY = None \<and> m USER_DATA_KEY = None)"

definition noFaults :: "Device \<Rightarrow> bool" where
  "noFaults d = list_all (\<lambda>f. f = None) (faults d)"



text \<open>
  The route guard as the specification words it, over one path segment: a redirect for
  an authenticated user on a public segment, for an unauthenticated user on any other
  segment, and for an authenticated user on another role's segment.
\<close>

definition guardSpec :: "string \<Rightarrow> bool \<Rightarrow> UserType \<Rightarrow> string option" where
  "guardSpec segment authenticated role =
     (if segment \<in> set PUBLIC_ROUTES \<and> authenticated
        then Some (''/'' @ ROLE_ROUTES role)
      else if segment \<notin> set PUBLIC_ROUTES \<and> \<not> authenticated
        then Some ''/login''
      else if authenticated \<and> segment \<in> set ROLE_ROUTES_values \<and> segment \<noteq> ROLE_ROUTES role
        then Some (''/'' @ ROLE_ROUTES role)
      else None)"

text \<open>
  The same rules with the two readings of the path kept apart, as the guard has them:
  the public test is on the route (the path after its first character), the role test on
  the first segment.
\<close>

definition guardRule :: "string \<Rightarrow> string \<Rightarrow> bool \<Rightarrow> UserType \<Rightarrow> string option" where
  "guardRule route segment authenticated role =
     (if route \<in> set PUBLIC_ROUTES \<and> authenticated
        then Some (''/'' @ ROLE_ROUTES role)
      else if route \<notin> set PUBLIC_ROUTES \<and> \<not> authenticated
        then Some ''/login''
      else if authenticated \<and> segment \<in> set ROLE_ROUTES_values \<and> segment \<noteq> ROLE_ROUTES role
        then Some (''/'' @ ROLE_ROUTES role)
      else None)"

definition firstSegment :: "string list \<Rightarrow> string" where
  "firstSegment segments = (case segments of [] \<Rightarrow> [] | s # rest \<Rightarrow> s)"

text \<open>
  The specification's invariant of the auth state, read on the list of actions dispatched
  so far: authenticated exactly when user and token are present and the last action was a
  success.
\<close>

definition isSuccess :: "AuthAction \<Rightarrow> bool" where
  "isSuccess a = (case a of LOGIN_SUCCESS payload \<Rightarrow> True | _ \<Rightarrow> False)"

definition lastIsSuccess :: "AuthAction list \<Rightarrow> bool" where
  "lastIsSuccess actions = (case rev actions of [] \<Rightarrow> False | a # earlier \<Rightarrow> isSuccess a)"

definition authInvariantSpec :: "AuthAction list \<Rightarrow> bool" where
  "authInvariantSpec actions =
     (isAuthenticated (dispatchAll actions) =
        (user (dispatchAll actions) \<noteq> None \<and> token (dispatchAll actions) \<noteq> None
         \<and> lastIsSuccess actions))"

text \<open>
  The same with \<^verbatim>\<open>LOGIN_REQUEST\<close> actions passed over: the last action that was not a
  request was a success.
\<close>

definition lastSettledIsSuccess :: "AuthAction list \<Rightarrow> bool" where
  "lastSettledIsSuccess actions = lastIsSuccess (filter (\<lambda>a. a \<noteq> LOGIN_REQUEST) actions)"






section \<open>Properties of the CPF validator and formatter\<close>

lemma parseInt_charAt:
  "i < length c \<Longrightarrow> isDigit (c ! i) \<Longrightarrow> parseInt (charAt c i) = Some (digitVal (c ! i))"
  by (simp add: parseInt_def charAt_def)

lemma weightedSum_closed:
  "n \<le> length c \<Longrightarrow> list_all isDigit c \<Longrightarrow>
   weightedSum c n w i (Some a) = Some (a + (\<Sum>k = i..<n. digitVal (c ! k) * (w - int k)))"
proof (induction c n w i "Some a" arbitrary: a rule: weightedSum.induct)
  case (1 c n w i)
  show ?case
  proof (cases "i < n")
    case True
    then have d: "isDigit (c ! i)" using 1(2,3) by (simp add: list_all_length)
    have p: "parseInt (charAt c i) = Some (digitVal (c ! i))"
      using True 1(2) d by (simp add: parseInt_charAt)
    have "weightedSum c n w i (Some a) =
          weightedSum c n w (Suc i) (Some (a + digitVal (c ! i) * (w - int i)))"
      using True by (subst weightedSum.simps) (simp add: p numAdd_def numMul_def)
    also have "\<dots> = Some (a + digitVal (c ! i) * (w - int i) + (\<Sum>k = Suc i..<n. digitVal (c ! k) * (w - int k)))"
      using 1(1)[OF True _ 1(2) 1(3)] by (simp add: p numAdd_def numMul_def)
    finally show ?thesis using True by (simp add: sum.atLeast_Suc_lessThan)
  next
    case False
    then show ?thesis by (subst weightedSum.simps) simp
  qed
qed

lemma digitVal_range: "isDigit c \<Longrightarrow> 0 \<le> digitVal c \<and> digitVal c \<le> 9"
  by (auto simp: isDigit_def digitVal_def)

lemma digitVal_inj: "digitVal a = digitVal b \<Longrightarrow> a = b"
  by (simp add: digitVal_def)


lemma map_eq_replicate_length:
  "(map f xs = replicate (length xs) y) = (\<forall>x\<in>set xs. f x = y)"
  by (induction xs) auto

lemma allSameDigit_replicate:
  assumes "list_all isDigit c" "length c = 11"
  shows "allSameDigit c \<longleftrightarrow> map digitVal c = replicate 11 (map digitVal c ! 0)"
proof -
  obtain x xs where c: "c = x # xs" and xs: "length xs = 10"
    using assms(2) by (cases c) auto
  have "list_all (\<lambda>y. y = x) xs \<longleftrightarrow> map digitVal xs = replicate 10 (digitVal x)"
    using map_eq_replicate_length[of digitVal xs "digitVal x"] xs
    by (auto simp: list_all_iff dest: digitVal_inj)
  moreover have "isDigit x" "xs \<noteq> []" using assms(1) c xs by auto
  ultimately show ?thesis using c
    by (simp add: allSameDigit_def eval_nat_numeral)
qed

lemma checkDigitOf_nonneg:
  "0 \<le> t \<Longrightarrow> checkDigitOf (numRem (Some t) 11) = Some (checkDigitSpec t)"
  by (simp add: checkDigitOf_def numRem_def checkDigitSpec_def smod_mod_positive)

lemma weighted_nonneg:
  assumes "list_all isDigit c" "n \<le> length c" "int n \<le> w"
  shows "0 \<le> (\<Sum>k = 0..<n. digitVal (c ! k) * (w - int k))"
proof (rule sum_nonneg)
  fix k assume "k \<in> {0..<n}"
  then have "k < length c" "int k \<le> w" using assms by auto
  moreover from this have "0 \<le> digitVal (c ! k)"
    using assms(1) digitVal_range by (auto simp: list_all_length)
  ultimately show "0 \<le> digitVal (c ! k) * (w - int k)" by simp
qed

lemma isCpfValid_eq_spec: "isCpfValid s = cpfValidSpec s"
proof -
  define c where "c = replaceNonDigits s"
  have dig: "list_all isDigit c" by (simp add: c_def replaceNonDigits_def list_all_iff)
  have dO: "digitsOf s = map digitVal c" by (simp add: digitsOf_def c_def replaceNonDigits_def)
  show ?thesis
  proof (cases "length c = 11")
    case False
    then show ?thesis by (simp add: isCpfValid_def cpfValidSpec_def dO c_def[symmetric])
  next
    case len: True
    have s1: "weightedSum c 9 10 0 (Some 0) = Some (\<Sum>k = 0..<9. digitVal (c ! k) * (10 - int k))"
      using weightedSum_closed[where n=9 and c=c and a=0 and w=10 and i=0] dig len by simp
    have s2: "weightedSum c 10 11 0 (Some 0) = Some (\<Sum>k = 0..<10. digitVal (c ! k) * (11 - int k))"
      using weightedSum_closed[where n=10 and c=c and a=0 and w=11 and i=0] dig len by simp
    have n1: "0 \<le> (\<Sum>k = 0..<9. digitVal (c ! k) * (10 - int k))"
      using weighted_nonneg[OF dig, of 9 10] len by simp
    have n2: "0 \<le> (\<Sum>k = 0..<10. digitVal (c ! k) * (11 - int k))"
      using weighted_nonneg[OF dig, of 10 11] len by simp
    have e1: "(\<Sum>i = 0..<9. map digitVal c ! i * (10 - int i)) = (\<Sum>k = 0..<9. digitVal (c ! k) * (10 - int k))"
      using len by (intro sum.cong) auto
    have e2: "(\<Sum>i = 0..<10. map digitVal c ! i * (11 - int i)) = (\<Sum>k = 0..<10. digitVal (c ! k) * (11 - int k))"
      using len by (intro sum.cong) auto
    have p9: "parseInt (charAt c 9) = Some (digitVal (c ! 9))"
      using dig len by (intro parseInt_charAt) (auto simp: list_all_length)
    have p10: "parseInt (charAt c 10) = Some (digitVal (c ! 10))"
      using dig len by (intro parseInt_charAt) (auto simp: list_all_length)
    have lhs: "isCpfValid s = (\<not> allSameDigit c
        \<and> digitVal (c ! 9) = checkDigitSpec (\<Sum>k = 0..<9. digitVal (c ! k) * (10 - int k))
        \<and> digitVal (c ! 10) = checkDigitSpec (\<Sum>k = 0..<10. digitVal (c ! k) * (11 - int k)))"
      unfolding isCpfValid_def c_def[symmetric] Let_def s1 s2 p9 p10
        checkDigitOf_nonneg[OF n1] checkDigitOf_nonneg[OF n2]
      using len by (auto simp: numStrictEq_def)
    have rhs: "cpfValidSpec s = (map digitVal c \<noteq> replicate 11 (map digitVal c ! 0)
        \<and> digitVal (c ! 9) = checkDigitSpec (\<Sum>k = 0..<9. digitVal (c ! k) * (10 - int k))
        \<and> digitVal (c ! 10) = checkDigitSpec (\<Sum>k = 0..<10. digitVal (c ! k) * (11 - int k)))"
      unfolding cpfValidSpec_def dO Let_def e1 e2 using len by simp
    show ?thesis unfolding lhs rhs using allSameDigit_replicate[OF dig len] by simp
  qed
qed


lemma take3_pieces:
  "take 3 c @ take 3 (drop 3 c) @ take 3 (drop 6 c) @ take 2 (drop 9 c) = take 11 (c::'a list)"
proof -
  have "take 11 c = take (3 + (3 + (3 + 2))) c" by simp
  also have "\<dots> = take 3 c @ take 3 (drop 3 c) @ take 3 (drop 6 c) @ take 2 (drop 9 c)"
    unfolding take_add by (simp add: add.commute)
  finally show ?thesis by simp
qed

lemma filter_formatCpf:
  assumes P: "\<And>x. isDigit x \<Longrightarrow> P x" and dot: "\<not> P CHR ''.''" and dash: "\<not> P CHR ''-''"
  shows "filter P (formatCpf s) = take 11 (replaceNonDigits s)"
proof -
  define c where "c = replaceNonDigits s"
  have all: "\<forall>x\<in>set c. P x" using P by (simp add: c_def replaceNonDigits_def)
  have f: "\<And>xs. set xs \<subseteq> set c \<Longrightarrow> filter P xs = xs"
    using all by (auto simp: filter_id_conv)
  have ft: "\<And>n. filter P (take n c) = take n c" by (rule f) (rule set_take_subset)
  have fd: "\<And>n. filter P (drop n c) = drop n c" by (rule f) (rule set_drop_subset)
  have ftd: "\<And>n m. filter P (take n (drop m c)) = take n (drop m c)"
    by (rule f) (meson set_take_subset set_drop_subset subset_trans)
  consider "length c \<le> 3" | "3 < length c" "length c \<le> 6" | "6 < length c" "length c \<le> 9"
    | "9 < length c" by linarith
  then show ?thesis
  proof cases
    case 1
    then show ?thesis using f[of c] by (simp add: formatCpf_def c_def[symmetric])
  next
    case 2
    then show ?thesis
      by (simp add: formatCpf_def c_def[symmetric] slice_def sliceFrom_def ft fd dot)
  next
    case 3
    have "take 3 c @ take 3 (drop 3 c) @ drop 6 c = c"
    proof -
      have "take 6 c = take (3 + 3) c" by simp
      also have "\<dots> = take 3 c @ take 3 (drop 3 c)" by (rule take_add)
      finally have "take 3 c @ take 3 (drop 3 c) @ drop 6 c = take 6 c @ drop 6 c" by simp
      then show ?thesis by simp
    qed
    with 3 show ?thesis
      by (simp add: formatCpf_def c_def[symmetric] slice_def sliceFrom_def ft fd ftd dot)
  next
    case 4
    then show ?thesis
      by (simp add: formatCpf_def c_def[symmetric] slice_def sliceFrom_def ft fd ftd dot dash take3_pieces)
  qed
qed

lemma last_formatCpf:
  assumes "replaceNonDigits s \<noteq> []" "length (replaceNonDigits s) < 11"
  shows "formatCpf s \<noteq> [] \<and> last (formatCpf s) = last (replaceNonDigits s)"
proof -
  define c where "c = replaceNonDigits s"
  consider "length c \<le> 3" | "3 < length c" "length c \<le> 6" | "6 < length c" "length c \<le> 9"
    | "length c = 10" using assms(2) unfolding c_def by linarith
  then show ?thesis
  proof cases
    case 1
    then show ?thesis using assms(1) by (simp add: formatCpf_def c_def[symmetric])
  next
    case 2
    then show ?thesis by (simp add: formatCpf_def c_def[symmetric] slice_def sliceFrom_def)
  next
    case 3
    then show ?thesis by (simp add: formatCpf_def c_def[symmetric] slice_def sliceFrom_def)
  next
    case 4
    then show ?thesis by (simp add: formatCpf_def c_def[symmetric] slice_def sliceFrom_def)
  qed
qed

lemma clean_idem: "replaceNonDigits (replaceNonDigits s) = replaceNonDigits s"
  by (simp add: replaceNonDigits_def)

lemma isCpfValid_clean: "isCpfValid (replaceNonDigits s) = isCpfValid s"
  by (simp add: isCpfValid_def clean_idem)


text \<open>
  C4. \<open>isCpfValid\<close> is a total boolean function, and for every input string it returns
  true exactly when, after all non-digit characters are removed, eleven digits remain,
  they are not all identical, the digit at index 9 is the first check digit (11 minus the
  weighted sum of digits 0..8 with weights 10..2 modulo 11, and 0 when that remainder is
  below 2) and the digit at index 10 is the second check digit (the same over digits 0..9
  with weights 11..2). In particular \<^verbatim>\<open>111.111.111-11\<close> is rejected, the valid CPF
  \<^verbatim>\<open>529.982.247-25\<close> is accepted, and the same with its last digit changed is rejected.
\<close>

theorem isCpfValid_characterisation:
  "isCpfValid s = cpfValidSpec s
   \<and> \<not> isCpfValid ''111.111.111-11''
   \<and> isCpfValid ''529.982.247-25''
   \<and> \<not> isCpfValid ''529.982.247-26''"
proof -
  have "\<not> isCpfValid ''111.111.111-11''" by code_simp
  moreover have "isCpfValid ''529.982.247-25''" by code_simp
  moreover have "\<not> isCpfValid ''529.982.247-26''" by code_simp
  ultimately show ?thesis using isCpfValid_eq_spec[of s] by simp
qed

theorem isCpfValid_characterisation_witness:
  "cpfValidSpec ''529.982.247-25'' \<and> \<not> cpfValidSpec ''529.982.247-26''"
  using isCpfValid_characterisation[of "''529.982.247-25''"]
        isCpfValid_characterisation[of "''529.982.247-26''"]
  by simp

text \<open>
  C8. For every string \<open>d\<close> of exactly eleven decimal digits, removing the mask
  characters \<^verbatim>\<open>.\<close> and \<^verbatim>\<open>-\<close> from \<open>formatCpf d\<close> gives \<open>d\<close> back. For every string
  of fewer than eleven digits, \<open>formatCpf\<close> appends no mask character after the last
  digit: the output of a non-empty input ends in a digit (the last digit of the input),
  and the output of the empty input is empty.
\<close>

theorem formatCpf_roundtrip:
  assumes "list_all isDigit d"
  shows "(length d = 11 \<longrightarrow> stripMask (formatCpf d) = d)
       \<and> (length d < 11 \<and> d \<noteq> [] \<longrightarrow>
            formatCpf d \<noteq> [] \<and> isDigit (last (formatCpf d)) \<and> last (formatCpf d) = last d)
       \<and> (d = [] \<longrightarrow> formatCpf d = [])"
proof -
  have clean: "replaceNonDigits d = d"
    using assms by (simp add: replaceNonDigits_def list_all_iff)
  have strip: "stripMask (formatCpf d) = take 11 d"
  proof -
    have "filter (\<lambda>c. c \<noteq> CHR ''.'' \<and> c \<noteq> CHR ''-'') (formatCpf d) = take 11 (replaceNonDigits d)"
      by (rule filter_formatCpf) (auto simp: isDigit_def)
    then show ?thesis by (simp add: stripMask_def clean)
  qed
  have lastd: "length d < 11 \<Longrightarrow> d \<noteq> [] \<Longrightarrow>
      formatCpf d \<noteq> [] \<and> isDigit (last (formatCpf d)) \<and> last (formatCpf d) = last d"
  proof -
    assume a: "length d < 11" "d \<noteq> []"
    then have l: "formatCpf d \<noteq> [] \<and> last (formatCpf d) = last d"
      using last_formatCpf[of d] by (simp add: clean)
    moreover have "isDigit (last d)" using assms a(2) by (simp add: list_all_iff)
    ultimately show ?thesis by simp
  qed
  have "d = [] \<Longrightarrow> formatCpf d = []" by (simp add: formatCpf_def replaceNonDigits_def)
  with strip lastd show ?thesis by auto
qed

theorem formatCpf_roundtrip_witness:
  "stripMask (formatCpf ''52998224725'') = ''52998224725''
   \<and> isDigit (last (formatCpf ''529982'')) \<and> last (formatCpf ''529982'') = CHR ''2''
   \<and> formatCpf [] = []"
proof -
  have a: "list_all isDigit ''52998224725''" by (simp add: isDigit_def)
  have b: "list_all isDigit ''529982''" by (simp add: isDigit_def)
  have c: "list_all isDigit []" by simp
  show ?thesis
    using formatCpf_roundtrip[OF a] formatCpf_roundtrip[OF b] formatCpf_roundtrip[OF c]
    by (simp add: isDigit_def)
qed

text \<open>
  C10. For every input string \<open>s\<close>, \<open>isCpfValid s\<close> equals \<open>isCpfValid\<close> of the
  subsequence of digit characters of \<open>s\<close>: the non-digit characters never change the
  verdict. In particular \<open>isCpfValid (formatCpf d) = isCpfValid d\<close> for every string
  \<open>d\<close> with at most eleven digits.
\<close>

theorem isCpfValid_ignores_non_digits:
  "isCpfValid s = isCpfValid (filter isDigit s)
   \<and> (length (filter isDigit d) \<le> 11 \<longrightarrow> isCpfValid (formatCpf d) = isCpfValid d)"
proof -
  have one: "isCpfValid s = isCpfValid (filter isDigit s)"
    using isCpfValid_clean[of s] by (simp add: replaceNonDigits_def)
  have two: "isCpfValid (formatCpf d) = isCpfValid d" if "length (filter isDigit d) \<le> 11"
  proof -
    have "replaceNonDigits (formatCpf d) = take 11 (replaceNonDigits d)"
      unfolding replaceNonDigits_def[of "formatCpf d"]
      by (rule filter_formatCpf) (simp_all add: isDigit_def)
    also have "\<dots> = replaceNonDigits d" using that by (simp add: replaceNonDigits_def)
    finally have "isCpfValid (replaceNonDigits (formatCpf d)) = isCpfValid (replaceNonDigits d)"
      by simp
    then show ?thesis by (simp add: isCpfValid_clean)
  qed
  from one two show ?thesis by simp
qed

theorem isCpfValid_ignores_non_digits_witness:
  "length (filter isDigit ''52998224725'') \<le> 11
   \<and> isCpfValid (formatCpf ''52998224725'') = isCpfValid ''52998224725''
   \<and> isCpfValid '' 529 982 247/25 '' = isCpfValid (filter isDigit '' 529 982 247/25 '')"
proof -
  have h: "length (filter isDigit ''52998224725'') \<le> 11" by (simp add: isDigit_def)
  show ?thesis
    using h isCpfValid_ignores_non_digits[of "'' 529 982 247/25 ''" "''52998224725''"]
    by simp
qed

section \<open>Properties of the auth reducer and hook\<close>

lemma LOGOUT_loggedOut [simp]: "initialState\<lparr>isLoading := False\<rparr> = loggedOut"
  by (simp add: initialState_def loggedOut_def)

text \<open>
  C9. The \<^verbatim>\<open>LOGIN_FAILURE\<close> transition changes only \<open>isLoading\<close>, \<open>isAuthenticated\<close> and
  \<open>error\<close>; the \<open>user\<close> and \<open>token\<close> of the state before are left as they were. In
  particular a state that a successful login produced keeps its user and token after a
  failed login attempt.
\<close>

theorem LOGIN_FAILURE_frame:
  "user (authReducer st (LOGIN_FAILURE m)) = user st
   \<and> token (authReducer st (LOGIN_FAILURE m)) = token st
   \<and> isLoading (authReducer st (LOGIN_FAILURE m)) = False
   \<and> isAuthenticated (authReducer st (LOGIN_FAILURE m)) = False
   \<and> error (authReducer st (LOGIN_FAILURE m)) = Some m
   \<and> user (authReducer (authReducer st (LOGIN_SUCCESS r)) (LOGIN_FAILURE m)) = Some (resp_user r)
   \<and> token (authReducer (authReducer st (LOGIN_SUCCESS r)) (LOGIN_FAILURE m)) = Some (resp_token r)"
  by simp

theorem LOGIN_FAILURE_frame_witness:
  "user (authReducer (dispatchAll [LOGIN_SUCCESS mockResponse]) (LOGIN_FAILURE ''no'')) =
     Some (resp_user mockResponse)
   \<and> token (authReducer (dispatchAll [LOGIN_SUCCESS mockResponse]) (LOGIN_FAILURE ''no'')) =
     Some (resp_token mockResponse)"
  using LOGIN_FAILURE_frame[of "dispatchAll [LOGIN_SUCCESS mockResponse]" "''no''"]
  by (simp add: dispatchAll_def)

text \<open>
  C6. After every call of \<open>logout\<close> the auth state is the logged-out state (no user, no
  token, not authenticated, not loading, no error), whatever the service call does:
  whether it reports success, reports failure or throws.
\<close>

theorem logout_always_loggedOut:
  "auth (fst (logoutWith service h d)) = loggedOut
   \<and> isInitialized (fst (logoutWith service h d)) = isInitialized h
   \<and> auth (fst (logout h d)) = loggedOut"
proof -
  have "fst (logoutWith service h d) = dispatch LOGOUT h" for service
    by (simp add: logoutWith_def split: prod.splits sum.splits)
  then show ?thesis
    by (simp add: logout_def dispatch_def)
qed

theorem logout_always_loggedOut_witness:
  "auth (fst (logout \<lparr>auth = dispatchAll [LOGIN_SUCCESS mockResponse], isInitialized = True\<rparr>
                     \<lparr>items = Map.empty, faults = [Some (Throws OtherValue 1)]\<rparr>)) = loggedOut
   \<and> auth (fst (logoutWith (\<lambda>d. (Inl OtherValue, d))
                     \<lparr>auth = dispatchAll [LOGIN_SUCCESS mockResponse], isInitialized = True\<rparr>
                     \<lparr>items = Map.empty, faults = []\<rparr>)) = loggedOut"
  using logout_always_loggedOut[of "\<lambda>d. (Inl OtherValue, d)"] logout_always_loggedOut
  by simp

text \<open>
  C5. For all credentials that the service's \<open>login\<close> rejects with an error of message
  \<open>m\<close>, the hook's \<open>login\<close> rejects with the same error and leaves the auth state not
  loading, not authenticated and with error \<open>m\<close>; the next \<^verbatim>\<open>LOGIN_REQUEST\<close> transition sets
  the error back to null.
\<close>

theorem login_rejected:
  assumes "fst (AuthService_login js credentials d) = Inl (ErrorObject m)"
  shows "fst (login js credentials h d) = Inl (ErrorObject m)
       \<and> isLoading (auth (fst (snd (login js credentials h d)))) = False
       \<and> isAuthenticated (auth (fst (snd (login js credentials h d)))) = False
       \<and> error (auth (fst (snd (login js credentials h d)))) = Some m
       \<and> error (authReducer (auth (fst (snd (login js credentials h d)))) LOGIN_REQUEST) = None"
  using assms
  by (auto simp: login_def Let_def dispatch_def split: prod.splits sum.splits thrown.splits)

lemma rejected:
  "\<not> (cred_cpf credentials = ''123.456.789-10'' \<and> cred_password credentials = ''password123'')
   \<Longrightarrow> AuthService_login js credentials d = (Inl (ErrorObject invalidCredentialsMessage), d)"
  by (auto simp: AuthService_login_def)

theorem login_rejected_witness:
  "fst (AuthService_login (\<lambda>u. ''{}'') \<lparr>cred_cpf = ''bad'', cred_password = ''bad''\<rparr>
          \<lparr>items = Map.empty, faults = []\<rparr>) = Inl (ErrorObject invalidCredentialsMessage)
   \<and> fst (login (\<lambda>u. ''{}'') \<lparr>cred_cpf = ''bad'', cred_password = ''bad''\<rparr>
          \<lparr>auth = initialState, isInitialized = True\<rparr>
          \<lparr>items = Map.empty, faults = []\<rparr>) = Inl (ErrorObject invalidCredentialsMessage)
   \<and> error (auth (fst (snd (login (\<lambda>u. ''{}'') \<lparr>cred_cpf = ''bad'', cred_password = ''bad''\<rparr>
          \<lparr>auth = initialState, isInitialized = True\<rparr>
          \<lparr>items = Map.empty, faults = []\<rparr>)))) = Some invalidCredentialsMessage"
proof -
  have h: "fst (AuthService_login (\<lambda>u. ''{}'') \<lparr>cred_cpf = ''bad'', cred_password = ''bad''\<rparr>
          \<lparr>items = Map.empty, faults = []\<rparr>) = Inl (ErrorObject invalidCredentialsMessage)"
    by (simp add: AuthService_login_def)
  show ?thesis using h login_rejected[OF h] by simp
qed

lemma lastIsSuccess_snoc: "lastIsSuccess (xs @ [a]) = isSuccess a"
  by (simp add: lastIsSuccess_def)

lemma dispatchAll_snoc: "dispatchAll (xs @ [a]) = authReducer (dispatchAll xs) a"
  by (simp add: dispatchAll_def)

lemma auth_invariant:
  "(isAuthenticated (dispatchAll actions) = lastSettledIsSuccess actions)
   \<and> (isAuthenticated (dispatchAll actions) \<longrightarrow>
        user (dispatchAll actions) \<noteq> None \<and> token (dispatchAll actions) \<noteq> None)"
proof (induction actions rule: rev_induct)
  case Nil
  then show ?case
    by (simp add: dispatchAll_def initialState_def lastSettledIsSuccess_def lastIsSuccess_def)
next
  case (snoc a xs)
  then show ?case
    by (cases a)
       (simp_all add: dispatchAll_snoc lastSettledIsSuccess_def lastIsSuccess_snoc isSuccess_def
          initialState_def)
qed

text \<open>
  C3, as the specification states it, fails: after a successful login, a
  \<^verbatim>\<open>LOGIN_REQUEST\<close> leaves \<open>isAuthenticated\<close> true, and the last action dispatched is then
  not a success.
\<close>

theorem authInvariantSpec_counterexample:
  "\<not> authInvariantSpec [LOGIN_SUCCESS mockResponse, LOGIN_REQUEST]"
  by (simp add: authInvariantSpec_def dispatchAll_def lastIsSuccess_def isSuccess_def)

text \<open>
  C3, amended. In every state reached from the initial state through the reducer,
  \<open>isAuthenticated\<close> is true exactly when user and token are both present and the last
  action dispatched that was not a \<^verbatim>\<open>LOGIN_REQUEST\<close> was a \<^verbatim>\<open>LOGIN_SUCCESS\<close>.
\<close>

theorem isAuthenticated_iff:
  "isAuthenticated (dispatchAll actions) =
     (user (dispatchAll actions) \<noteq> None \<and> token (dispatchAll actions) \<noteq> None
      \<and> lastSettledIsSuccess actions)"
  using auth_invariant[of actions] by blast

theorem isAuthenticated_iff_witness:
  "isAuthenticated (dispatchAll [LOGIN_SUCCESS mockResponse, LOGIN_REQUEST])
   \<and> lastSettledIsSuccess [LOGIN_SUCCESS mockResponse, LOGIN_REQUEST]"
proof -
  have "isAuthenticated (dispatchAll [LOGIN_SUCCESS mockResponse, LOGIN_REQUEST])"
    by (simp add: dispatchAll_def)
  then show ?thesis
    using isAuthenticated_iff[of "[LOGIN_SUCCESS mockResponse, LOGIN_REQUEST]"] by simp
qed

section \<open>Properties of the session store\<close>

lemma keys_distinct [simp]: "AUTH_TOKEN_KEY \<noteq> USER_DATA_KEY" "USER_DATA_KEY \<noteq> AUTH_TOKEN_KEY"
  by (simp_all add: AUTH_TOKEN_KEY_def USER_DATA_KEY_def)

lemma items_nextCall: "nextCall d = (f, d') \<Longrightarrow> items d' = items d"
  by (auto simp: nextCall_def split: list.splits)

lemma getItem_items [simp]: "items (snd (safeStorage_getItem k d)) = items d"
  by (cases "nextCall d")
     (auto simp: safeStorage_getItem_def AsyncStorage_getItem_def dest: items_nextCall
        split: option.splits fault.splits)

lemma getItem_value:
  "fst (safeStorage_getItem k d) = None \<or> fst (safeStorage_getItem k d) = items d k"
  by (cases "nextCall d")
     (auto simp: safeStorage_getItem_def AsyncStorage_getItem_def dest: items_nextCall
        split: option.splits fault.splits)

lemma noFaults_nextCall:
  "noFaults d \<Longrightarrow> fst (nextCall d) = None \<and> noFaults (snd (nextCall d))"
  by (auto simp: noFaults_def nextCall_def split: list.splits)

lemma getItem_noFaults:
  "noFaults d \<Longrightarrow>
   fst (safeStorage_getItem k d) = items d k \<and> noFaults (snd (safeStorage_getItem k d))"
  using noFaults_nextCall[of d]
  by (cases "nextCall d")
     (auto simp: safeStorage_getItem_def AsyncStorage_getItem_def dest: items_nextCall
        split: option.splits fault.splits)

lemma clearAuthData_noFaults:
  "noFaults d \<Longrightarrow>
   items (snd (clearAuthData d)) = (items d)(AUTH_TOKEN_KEY := None, USER_DATA_KEY := None)"
  using noFaults_nextCall[of d]
  by (cases "nextCall d")
     (auto simp: clearAuthData_def safeStorage_multiRemove_def AsyncStorage_multiRemove_def
        dest: items_nextCall split: option.splits fault.splits)


















section \<open>Properties of the initial session check\<close>

lemma isUserLoggedIn_items [simp]: "items (snd (isUserLoggedIn d)) = items d"
  by (simp add: isUserLoggedIn_def getSavedToken_def split: prod.splits)
     (metis getItem_items snd_conv)

lemma isUserLoggedIn_truthy: "fst (isUserLoggedIn d) \<Longrightarrow> truthy (items d AUTH_TOKEN_KEY)"
  using getItem_value[of AUTH_TOKEN_KEY d]
  by (auto simp: isUserLoggedIn_def getSavedToken_def truthy_def split: prod.splits)

lemma isUserLoggedIn_noFaults:
  "noFaults d \<Longrightarrow>
   fst (isUserLoggedIn d) = truthy (items d AUTH_TOKEN_KEY) \<and> noFaults (snd (isUserLoggedIn d))"
  using getItem_noFaults[of d AUTH_TOKEN_KEY]
  by (auto simp: isUserLoggedIn_def getSavedToken_def split: prod.splits)

lemma getSavedToken_items [simp]: "items (snd (getSavedToken d)) = items d"
  by (simp add: getSavedToken_def)

lemma getSavedToken_noFaults: "noFaults d \<Longrightarrow> noFaults (snd (getSavedToken d))"
  by (simp add: getSavedToken_def getItem_noFaults)

lemma getSavedUser_snd: "snd (getSavedUser p d) = snd (safeStorage_getItem USER_DATA_KEY d)"
  by (simp add: getSavedUser_def split: prod.splits option.splits sum.splits)

lemma getSavedUser_items [simp]: "items (snd (getSavedUser p d)) = items d"
  by (simp add: getSavedUser_snd)

lemma getSavedUser_noFaults: "noFaults d \<Longrightarrow> noFaults (snd (getSavedUser p d))"
  by (simp add: getSavedUser_snd getItem_noFaults)

lemma getSavedUser_value:
  "fst (getSavedUser p d) = None \<or> fst (getSavedUser p d) = storedUser p (items d)"
  using getItem_value[of USER_DATA_KEY d]
  by (auto simp: getSavedUser_def storedUser_def split: prod.splits option.splits sum.splits)

lemma checkAuthStatus_not_logged_in:
  "\<not> fst (isUserLoggedIn d) \<Longrightarrow>
   checkAuthStatus p h d = (setIsInitialized True (dispatch LOGOUT h), snd (isUserLoggedIn d))"
  by (cases "isUserLoggedIn d") (simp add: checkAuthStatus_def)

lemma checkAuthStatus_no_user:
  "fst (isUserLoggedIn d) \<Longrightarrow> fst (getSavedUser p (snd (isUserLoggedIn d))) = None \<Longrightarrow>
   checkAuthStatus p h d =
     (setIsInitialized True (dispatch LOGOUT h),
      snd (clearAuthData (snd (getSavedToken (snd (getSavedUser p (snd (isUserLoggedIn d))))))))"
  by (cases "isUserLoggedIn d") (auto simp: checkAuthStatus_def split: prod.splits)

lemma logged_out_hook:
  "auth (setIsInitialized True (dispatch LOGOUT h)) = loggedOut
   \<and> isInitialized (setIsInitialized True (dispatch LOGOUT h))"
  by (simp add: setIsInitialized_def dispatch_def)

text \<open>
  C1, as the specification states it, fails: from a store that holds a user record and no
  token, \<open>checkAuthStatus\<close> issues no clear, and the user record is still stored when it
  has finished.
\<close>

theorem checkAuthStatus_counterexample:
  "partialSession (\<lambda>s. Inr (Some (resp_user mockResponse))) [USER_DATA_KEY \<mapsto> ''{}'']
   \<and> \<not> bothKeysAbsent (items (snd (checkAuthStatus (\<lambda>s. Inr (Some (resp_user mockResponse)))
         \<lparr>auth = initialState, isInitialized = False\<rparr>
         \<lparr>items = [USER_DATA_KEY \<mapsto> ''{}''], faults = []\<rparr>)))"
  by (simp add: partialSession_def bothKeysAbsent_def checkAuthStatus_def isUserLoggedIn_def
      getSavedToken_def safeStorage_getItem_def AsyncStorage_getItem_def nextCall_def truthy_def)

text \<open>
  C1, amended. From every store holding exactly one component of a session,
  \<open>checkAuthStatus\<close> ends in the logged-out state with \<open>isInitialized\<close> set, whatever
  storage call fails. When the stored token is non-empty (and the user record absent or
  not parsable) and no storage call fails, both keys are absent afterwards. When no token
  or an empty token is stored, the store is left as it was.
\<close>

theorem checkAuthStatus_partial_session:
  assumes "partialSession p (items d)"
  shows "auth (fst (checkAuthStatus p h d)) = loggedOut
       \<and> isInitialized (fst (checkAuthStatus p h d))
       \<and> (truthy (items d AUTH_TOKEN_KEY) \<and> noFaults d \<longrightarrow>
            bothKeysAbsent (items (snd (checkAuthStatus p h d))))
       \<and> (\<not> truthy (items d AUTH_TOKEN_KEY) \<longrightarrow>
            items (snd (checkAuthStatus p h d)) = items d)"
proof (cases "fst (isUserLoggedIn d)")
  case False
  have "noFaults d \<Longrightarrow> \<not> truthy (items d AUTH_TOKEN_KEY)"
    using False isUserLoggedIn_noFaults[of d] by simp
  then show ?thesis
    using checkAuthStatus_not_logged_in[OF False, of p h] logged_out_hook[of h] by auto
next
  case True
  then have t: "truthy (items d AUTH_TOKEN_KEY)" by (rule isUserLoggedIn_truthy)
  then have "items d AUTH_TOKEN_KEY \<noteq> None" by (auto simp: truthy_def split: option.splits)
  then have "storedUser p (items d) = None"
    using assms by (simp add: partialSession_def)
  then have nu: "fst (getSavedUser p (snd (isUserLoggedIn d))) = None"
    using getSavedUser_value[of p "snd (isUserLoggedIn d)"] by simp
  note eq = checkAuthStatus_no_user[OF True nu, of h]
  have "bothKeysAbsent (items (snd (checkAuthStatus p h d)))" if nf: "noFaults d"
  proof -
    have "noFaults (snd (getSavedToken (snd (getSavedUser p (snd (isUserLoggedIn d))))))"
      using nf by (simp add: isUserLoggedIn_noFaults getSavedUser_noFaults getSavedToken_noFaults)
    then show ?thesis
      unfolding eq by (simp add: clearAuthData_noFaults bothKeysAbsent_def)
  qed
  then show ?thesis using t logged_out_hook[of h] by (simp add: eq)
qed

theorem checkAuthStatus_partial_session_witness:
  "partialSession (\<lambda>s. Inl (ErrorObject ''Unexpected token'')) [AUTH_TOKEN_KEY \<mapsto> ''t'', USER_DATA_KEY \<mapsto> ''{'']
   \<and> truthy ([AUTH_TOKEN_KEY \<mapsto> ''t'', USER_DATA_KEY \<mapsto> ''{''] AUTH_TOKEN_KEY)
   \<and> noFaults \<lparr>items = [AUTH_TOKEN_KEY \<mapsto> ''t'', USER_DATA_KEY \<mapsto> ''{''], faults = []\<rparr>
   \<and> auth (fst (checkAuthStatus (\<lambda>s. Inl (ErrorObject ''Unexpected token''))
         \<lparr>auth = initialState, isInitialized = False\<rparr>
         \<lparr>items = [AUTH_TOKEN_KEY \<mapsto> ''t'', USER_DATA_KEY \<mapsto> ''{''], faults = []\<rparr>)) = loggedOut
   \<and> bothKeysAbsent (items (snd (checkAuthStatus (\<lambda>s. Inl (ErrorObject ''Unexpected token''))
         \<lparr>auth = initialState, isInitialized = False\<rparr>
         \<lparr>items = [AUTH_TOKEN_KEY \<mapsto> ''t'', USER_DATA_KEY \<mapsto> ''{''], faults = []\<rparr>)))"
proof -
  let ?p = "\<lambda>s::string. (Inl (ErrorObject ''Unexpected token'') :: thrown + User option)"
  let ?d = "\<lparr>items = [AUTH_TOKEN_KEY \<mapsto> ''t'', USER_DATA_KEY \<mapsto> ''{''], faults = []\<rparr>"
  have h: "partialSession ?p (items ?d)"
    by (simp add: partialSession_def storedUser_def)
  have t: "truthy (items ?d AUTH_TOKEN_KEY)" by (simp add: truthy_def)
  have n: "noFaults ?d" by (simp add: noFaults_def)
  show ?thesis
    using h t n checkAuthStatus_partial_session[OF h, of "\<lparr>auth = initialState, isInitialized = False\<rparr>"] by simp
qed


section \<open>Properties of the route guard\<close>

lemma not_member_empty: "[] \<notin> set ROLE_ROUTES_values"
  by (simp add: ROLE_ROUTES_values_def)

text \<open>
  C2, as the specification states it, fails: before \<open>isInitialized\<close> is set the guard
  redirects nowhere, also for an unauthenticated user on a protected segment; and the
  public test reads the whole route, so an unauthenticated user on a path below a public
  segment is sent to the login path.
\<close>

theorem guardSpec_counterexample:
  "useProtectedRoute \<lparr>auth = initialState, isInitialized = False\<rparr> ''/trainer'' [''trainer'']
     \<noteq> guardSpec ''trainer'' False TRAINER
   \<and> useProtectedRoute \<lparr>auth = loggedOut, isInitialized = True\<rparr> ''/login/help'' [''login'', ''help'']
     \<noteq> guardSpec ''login'' False TRAINER"
  by (simp add: useProtectedRoute_def guardSpec_def PUBLIC_ROUTES_def
      initialState_def loggedOut_def)

text \<open>
  C2, amended. While \<open>isInitialized\<close> is unset the guard computes no redirect. Once it is
  set, for every path, auth state and role of the authenticated user: if the route (the
  path after its leading slash) is in the public set and the user is authenticated, a
  redirect to the user's role segment; if the route is not in the public set and the user
  is not authenticated, a redirect to \<^verbatim>\<open>/login\<close>; if the user is authenticated and the first
  segment is a role segment other than the user's own, a redirect to the user's own
  segment; in every other case no redirect. On a path of one segment this is the rule of
  the specification.
\<close>

theorem useProtectedRoute_rule:
  assumes "isAuthenticated (auth h) \<Longrightarrow> \<exists>u. user (auth h) = Some u \<and> userType u = role"
  shows "useProtectedRoute h pathname segments =
           (if isInitialized h
            then guardRule (drop 1 pathname) (firstSegment segments) (isAuthenticated (auth h)) role
            else None)
       \<and> (drop 1 pathname = firstSegment segments \<and> isInitialized h \<longrightarrow>
            useProtectedRoute h pathname segments =
              guardSpec (firstSegment segments) (isAuthenticated (auth h)) role)"
proof -
  have seg: "(case segments of [] \<Rightarrow> [] | s # rest \<Rightarrow> s) = firstSegment segments"
    by (simp add: firstSegment_def)
  have main: "useProtectedRoute h pathname segments =
           (if isInitialized h
            then guardRule (drop 1 pathname) (firstSegment segments) (isAuthenticated (auth h)) role
            else None)"
  proof (cases "isAuthenticated (auth h)")
    case True
    then obtain u where u: "user (auth h) = Some u" "userType u = role"
      using assms by blast
    show ?thesis
      using True u not_member_empty
      by (auto simp: useProtectedRoute_def guardRule_def Let_def seg)
  next
    case False
    then show ?thesis
      by (auto simp: useProtectedRoute_def guardRule_def Let_def seg split: option.splits)
  qed
  have "guardRule x x a role = guardSpec x a role" for x a
    by (simp add: guardRule_def guardSpec_def)
  with main show ?thesis by simp
qed

theorem useProtectedRoute_rule_witness:
  "useProtectedRoute \<lparr>auth = dispatchAll [LOGIN_SUCCESS mockResponse], isInitialized = True\<rparr>
      ''/login'' [''login''] = Some ''/trainer''
   \<and> useProtectedRoute \<lparr>auth = dispatchAll [LOGIN_SUCCESS mockResponse], isInitialized = True\<rparr>
      ''/admin'' [''admin''] = Some ''/trainer''
   \<and> useProtectedRoute \<lparr>auth = dispatchAll [], isInitialized = True\<rparr>
      ''/trainer'' [''trainer''] = Some ''/login''"
proof -
  let ?a = "\<lparr>auth = dispatchAll [LOGIN_SUCCESS mockResponse], isInitialized = True\<rparr>"
  let ?b = "\<lparr>auth = dispatchAll [], isInitialized = True\<rparr>"
  have ha: "isAuthenticated (auth ?a) \<Longrightarrow> \<exists>u. user (auth ?a) = Some u \<and> userType u = TRAINER"
    by (simp add: dispatchAll_def mockResponse_def)
  have hb: "isAuthenticated (auth ?b) \<Longrightarrow> \<exists>u. user (auth ?b) = Some u \<and> userType u = TRAINER"
    by (simp add: dispatchAll_def initialState_def)
  have ia: "isAuthenticated (auth ?a)" by (simp add: dispatchAll_def)
  have ib: "\<not> isAuthenticated (auth ?b)" by (simp add: dispatchAll_def initialState_def)
  show ?thesis
    using useProtectedRoute_rule[OF ha, of "''/login''" "[''login'']"] useProtectedRoute_rule[OF ha, of "''/admin''" "[''admin'']"]
          useProtectedRoute_rule[OF hb, of "''/trainer''" "[''trainer'']"] ia ib
    by (simp add: guardRule_def firstSegment_def PUBLIC_ROUTES_def ROLE_ROUTES_values_def)
qed


end
